theory Spec2Isabelle
  imports Main "HOL-Library.Word" "HOL-Library.DAList"
begin

section \<open>The library routines used by the sync engine\<close>

text \<open>
  The engine (\<^verbatim>\<open>src/wasm/sync_engine.cpp\<close>) is built with Emscripten for wasm32:
  \<^verbatim>\<open>int\<close> has 32 bits, \<^verbatim>\<open>size_t\<close> and \<^verbatim>\<open>unsigned long\<close> have 32 bits,
  \<^verbatim>\<open>long long\<close> has 64 bits and \<^verbatim>\<open>char\<close> is signed. A \<^verbatim>\<open>std::string\<close> is a list
  of bytes. Sizes and indices of strings are natural numbers: they are bounded by the
  length of the string they index, so no \<^verbatim>\<open>size_t\<close> computation on them wraps, with the
  one exception of \<^verbatim>\<open>npos + 1\<close>, which is written out below.

  What the C++ library raises, and what the language leaves undefined, is an error value.
\<close>

datatype error =
    invalid_argument    \<comment> \<open>\<^verbatim>\<open>std::invalid_argument\<close>, from \<^verbatim>\<open>std::stoi\<close>\<close>
  | out_of_range        \<comment> \<open>\<^verbatim>\<open>std::out_of_range\<close>, from \<^verbatim>\<open>std::stoi\<close> and \<^verbatim>\<open>substr\<close>\<close>
  | signed_overflow     \<comment> \<open>undefined: \<^verbatim>\<open>int\<close> addition out of range\<close>
  | end_dereferenced    \<comment> \<open>undefined: \<^verbatim>\<open>->\<close> on a past-the-end iterator\<close>

text \<open>Sequencing: the first error ends the call, as a thrown exception does.\<close>

fun then_do :: "error + 'a \<Rightarrow> ('a \<Rightarrow> error + 'b) \<Rightarrow> error + 'b" where
  "then_do (Inl e) f = Inl e"
| "then_do (Inr x) f = f x"

subsection \<open>\<^verbatim>\<open>std::to_string\<close> on an unsigned value\<close>

fun to_string :: "nat \<Rightarrow> string" where
  "to_string n = (if 10 \<le> n then to_string (n div 10) else []) @ [char_of (n mod 10 + 48)]"

declare to_string.simps [simp del]

subsection \<open>\<^verbatim>\<open>std::stoi\<close>\<close>

text \<open>
  \<^verbatim>\<open>std::stoi(s)\<close> is \<^verbatim>\<open>strtol\<close> in base 10: it skips leading white space, takes an
  optional sign, then the longest run of decimal digits, and ignores what follows. It
  throws \<^verbatim>\<open>std::invalid_argument\<close> when there is no digit and \<^verbatim>\<open>std::out_of_range\<close>
  when the value is not an \<^verbatim>\<open>int\<close>.
\<close>

definition INT_MAX :: int where
  "INT_MAX = 2147483647"

definition INT_MIN :: int where
  "INT_MIN = - 2147483648"

definition isspace :: "char \<Rightarrow> bool" where
  "isspace c = (of_char c \<in> {32, 9, 10, 11, 12, 13 :: nat})"

definition isdigit :: "char \<Rightarrow> bool" where
  "isdigit c = (48 \<le> (of_char c :: nat) \<and> (of_char c :: nat) \<le> 57)"

definition digit_value :: "char \<Rightarrow> nat" where
  "digit_value c = of_char c - 48"

definition decimal :: "string \<Rightarrow> nat" where
  "decimal ds = foldl (\<lambda>acc c. 10 * acc + digit_value c) 0 ds"

definition stoi :: "string \<Rightarrow> error + int" where
  "stoi s =
     (let s1 = dropWhile isspace s;
          negative = (case s1 of [] \<Rightarrow> False | c # _ \<Rightarrow> c = CHR ''-'');
          s2 = (case s1 of [] \<Rightarrow> []
                | c # rest \<Rightarrow> if c = CHR ''-'' \<or> c = CHR ''+'' then rest else s1);
          ds = takeWhile isdigit s2
      in if ds = [] then Inl invalid_argument
         else let v = (if negative then - int (decimal ds) else int (decimal ds))
              in if v < INT_MIN \<or> INT_MAX < v then Inl out_of_range else Inr v)"

subsection \<open>\<^verbatim>\<open>std::string::find\<close> and \<^verbatim>\<open>substr\<close>\<close>

text \<open>\<^verbatim>\<open>npos\<close> is \<open>None\<close>.\<close>

fun index_of :: "char \<Rightarrow> string \<Rightarrow> nat option" where
  "index_of c [] = None"
| "index_of c (x # xs) = (if x = c then Some 0 else map_option Suc (index_of c xs))"

definition find_from :: "string \<Rightarrow> char \<Rightarrow> nat \<Rightarrow> nat option" where
  "find_from s c pos = map_option (\<lambda>k. pos + k) (index_of c (drop pos s))"

text \<open>
  \<^verbatim>\<open>firstColon + 1\<close> is computed before \<^verbatim>\<open>firstColon\<close> is tested; \<^verbatim>\<open>npos\<close> is the
  largest \<^verbatim>\<open>size_t\<close>, so \<^verbatim>\<open>npos + 1\<close> is 0.
\<close>

fun plus_one :: "nat option \<Rightarrow> nat" where
  "plus_one None = 0"
| "plus_one (Some p) = p + 1"

definition substr :: "string \<Rightarrow> nat \<Rightarrow> nat \<Rightarrow> error + string" where
  "substr s pos n = (if length s < pos then Inl out_of_range else Inr (take n (drop pos s)))"

definition substr_to_end :: "string \<Rightarrow> nat \<Rightarrow> error + string" where
  "substr_to_end s pos = (if length s < pos then Inl out_of_range else Inr (drop pos s))"

text \<open>An \<^verbatim>\<open>int\<close> converted to \<^verbatim>\<open>size_t\<close>; \<^verbatim>\<open>int\<close> addition.\<close>

definition to_size_t :: "int \<Rightarrow> nat" where
  "to_size_t v = nat (v mod 2 ^ 32)"

definition int_add :: "int \<Rightarrow> int \<Rightarrow> error + int" where
  "int_add a b = (if a + b < INT_MIN \<or> INT_MAX < a + b then Inl signed_overflow else Inr (a + b))"

section \<open>The delta codec\<close>

text \<open>The two loops of \<^verbatim>\<open>generateDelta\<close>: the common prefix, then the common suffix.\<close>

function prefix_loop :: "string \<Rightarrow> string \<Rightarrow> nat \<Rightarrow> nat" where
  "prefix_loop oldContent newContent i =
     (if i < length oldContent \<and> i < length newContent \<and> oldContent ! i = newContent ! i
      then prefix_loop oldContent newContent (i + 1)
      else i)"
  by pat_completeness auto
termination
  by (relation "measure (\<lambda>(oldContent, newContent, i). length oldContent - i)") auto

declare prefix_loop.simps [simp del]

function suffix_loop :: "string \<Rightarrow> string \<Rightarrow> nat \<Rightarrow> nat \<Rightarrow> nat \<Rightarrow> nat \<times> nat" where
  "suffix_loop oldContent newContent i oldEnd newEnd =
     (if oldEnd > i \<and> newEnd > i \<and> oldContent ! (oldEnd - 1) = newContent ! (newEnd - 1)
      then suffix_loop oldContent newContent i (oldEnd - 1) (newEnd - 1)
      else (oldEnd, newEnd))"
  by pat_completeness auto
termination
  by (relation "measure (\<lambda>(oldContent, newContent, i, oldEnd, newEnd). oldEnd)") auto

declare suffix_loop.simps [simp del]

text \<open>
  Lines 143 to 173 of \<^verbatim>\<open>generateDelta\<close>: the delta of two contents, once both records
  have been found.
\<close>

definition delta_of :: "string \<Rightarrow> string \<Rightarrow> error + string" where
  "delta_of oldContent newContent =
     (let i = prefix_loop oldContent newContent 0;
          delta = to_string i @ '':'';
          (oldEnd, newEnd) =
             suffix_loop oldContent newContent i (length oldContent) (length newContent);
          delta = delta @ to_string (oldEnd - i) @ '':''
      in then_do (substr newContent i (newEnd - i)) (\<lambda>inserted. Inr (delta @ inserted)))"

text \<open>The body of \<^verbatim>\<open>applyDelta\<close>, which reads no member of the engine.\<close>

definition apply_delta :: "string \<Rightarrow> string \<Rightarrow> error + string" where
  "apply_delta content delta =
     (let firstColon = find_from delta CHR '':'' 0;
          secondColon = find_from delta CHR '':'' (plus_one firstColon)
      in case (firstColon, secondColon) of
           (Some firstColon, Some secondColon) \<Rightarrow>
             then_do (substr delta 0 firstColon) (\<lambda>posText.
             then_do (stoi posText) (\<lambda>pos.
             then_do (substr delta (firstColon + 1) (secondColon - firstColon - 1)) (\<lambda>delText.
             then_do (stoi delText) (\<lambda>delCount.
             then_do (substr_to_end delta (secondColon + 1)) (\<lambda>insertion.
             then_do (substr content 0 (to_size_t pos)) (\<lambda>kept.
             then_do (int_add pos delCount) (\<lambda>endPos.
               if to_size_t endPos < length content
               then then_do (substr_to_end content (to_size_t endPos))
                      (\<lambda>rest. Inr (kept @ insertion @ rest))
               else Inr (kept @ insertion))))))))
         | _ \<Rightarrow> Inr content)"

section \<open>The engine\<close>

record Message =
  msg_id :: "32 word"
  content :: string
  timestamp :: "64 word"
  hash :: string

text \<open>
  A \<^verbatim>\<open>std::unordered_map<int, Message>\<close> is an association list with distinct keys. The
  order of the list is the order in which a range-\<^verbatim>\<open>for\<close> visits the map, which the
  library leaves open: the theorems below hold for every store, hence for every order.
\<close>

type_synonym store = "(32 word, Message) alist"

record SyncEngine =
  localMessages :: store
  remoteMessages :: store

definition new_SyncEngine :: SyncEngine where
  "new_SyncEngine = \<lparr>localMessages = DAList.empty, remoteMessages = DAList.empty\<rparr>"

subsection \<open>\<^verbatim>\<open>hashMessage\<close>\<close>

text \<open>
  \<^verbatim>\<open>hash = ((hash << 5) + hash) + c\<close> on \<^verbatim>\<open>unsigned long\<close>; the \<^verbatim>\<open>char\<close> is sign-extended.
\<close>

definition char_to_ulong :: "char \<Rightarrow> 32 word" where
  "char_to_ulong c = scast (of_nat (of_char c) :: 8 word)"

definition hashMessage :: "string \<Rightarrow> string" where
  "hashMessage s =
     to_string (unat (foldl (\<lambda>h c. (push_bit 5 h + h) + char_to_ulong c) (5381 :: 32 word) s))"

subsection \<open>\<^verbatim>\<open>addLocalMessage\<close>, \<^verbatim>\<open>addRemoteMessage\<close>, \<^verbatim>\<open>clear\<close>\<close>

definition addLocalMessage :: "32 word \<Rightarrow> string \<Rightarrow> 64 word \<Rightarrow> SyncEngine \<Rightarrow> SyncEngine" where
  "addLocalMessage msgId text stamp st =
     (let msg = \<lparr>msg_id = msgId, content = text, timestamp = stamp, hash = hashMessage text\<rparr>
      in st\<lparr>localMessages := DAList.update msgId msg (localMessages st)\<rparr>)"

definition addRemoteMessage :: "32 word \<Rightarrow> string \<Rightarrow> 64 word \<Rightarrow> SyncEngine \<Rightarrow> SyncEngine" where
  "addRemoteMessage msgId text stamp st =
     (let msg = \<lparr>msg_id = msgId, content = text, timestamp = stamp, hash = hashMessage text\<rparr>
      in st\<lparr>remoteMessages := DAList.update msgId msg (remoteMessages st)\<rparr>)"

definition clear :: "SyncEngine \<Rightarrow> SyncEngine" where
  "clear st = st\<lparr>localMessages := DAList.empty, remoteMessages := DAList.empty\<rparr>"

text \<open>The calls that change the stores, and a run of them on a fresh engine.\<close>

datatype operation =
    AddLocalMessage "32 word" string "64 word"
  | AddRemoteMessage "32 word" string "64 word"
  | Clear

fun perform :: "operation \<Rightarrow> SyncEngine \<Rightarrow> SyncEngine" where
  "perform (AddLocalMessage msgId text stamp) st = addLocalMessage msgId text stamp st"
| "perform (AddRemoteMessage msgId text stamp) st = addRemoteMessage msgId text stamp st"
| "perform Clear st = clear st"

definition run :: "operation list \<Rightarrow> SyncEngine" where
  "run ops = fold perform ops new_SyncEngine"

subsection \<open>\<^verbatim>\<open>calculateDiff\<close>\<close>

text \<open>
  The queries are member functions that are not \<^verbatim>\<open>const\<close>: each returns its result
  together with the engine it leaves behind.
\<close>

fun diff_remote_loop ::
  "SyncEngine \<Rightarrow> (32 word \<times> Message) list \<Rightarrow> 32 word list \<times> 32 word list
     \<Rightarrow> 32 word list \<times> 32 word list" where
  "diff_remote_loop st [] (added_ids, modified_ids) = (added_ids, modified_ids)"
| "diff_remote_loop st ((msgId, remoteMsg) # rest) (added_ids, modified_ids) =
     (case DAList.lookup (localMessages st) msgId of
        None \<Rightarrow> diff_remote_loop st rest (added_ids @ [msgId], modified_ids)
      | Some localMsg \<Rightarrow>
          if hash localMsg \<noteq> hash remoteMsg
          then diff_remote_loop st rest (added_ids, modified_ids @ [msgId])
          else diff_remote_loop st rest (added_ids, modified_ids))"

fun diff_local_loop ::
  "SyncEngine \<Rightarrow> (32 word \<times> Message) list \<Rightarrow> 32 word list \<Rightarrow> 32 word list" where
  "diff_local_loop st [] deleted_ids = deleted_ids"
| "diff_local_loop st ((msgId, localMsg) # rest) deleted_ids =
     (if DAList.lookup (remoteMessages st) msgId = None
      then diff_local_loop st rest (deleted_ids @ [msgId])
      else diff_local_loop st rest deleted_ids)"

record diff =
  added :: "32 word list"
  modified :: "32 word list"
  deleted :: "32 word list"

definition calculateDiff :: "SyncEngine \<Rightarrow> diff \<times> SyncEngine" where
  "calculateDiff st =
     (let (added_ids, modified_ids) =
            diff_remote_loop st (DAList.impl_of (remoteMessages st)) ([], []);
          deleted_ids = diff_local_loop st (DAList.impl_of (localMessages st)) []
      in (\<lparr>added = added_ids, modified = modified_ids, deleted = deleted_ids\<rparr>, st))"

subsection \<open>\<^verbatim>\<open>generateDelta\<close> and \<^verbatim>\<open>applyDelta\<close>\<close>

definition generateDelta :: "SyncEngine \<Rightarrow> 32 word \<Rightarrow> (error + string) \<times> SyncEngine" where
  "generateDelta st msgId =
     (case (DAList.lookup (localMessages st) msgId, DAList.lookup (remoteMessages st) msgId) of
        (Some localMsg, Some remoteMsg) \<Rightarrow> (delta_of (content localMsg) (content remoteMsg), st)
      | _ \<Rightarrow> (Inr '''', st))"

definition applyDelta :: "SyncEngine \<Rightarrow> string \<Rightarrow> string \<Rightarrow> (error + string) \<times> SyncEngine" where
  "applyDelta st text delta = (apply_delta text delta, st)"

subsection \<open>\<^verbatim>\<open>resolveConflict\<close>\<close>

text \<open>
  Everywhere else an iterator is compared with \<^verbatim>\<open>end()\<close> of the map that \<^verbatim>\<open>find\<close>
  searched, which is the test that the lookup found nothing. \<^verbatim>\<open>resolveConflict\<close>
  compares \<^verbatim>\<open>remoteIt\<close> with \<^verbatim>\<open>localMessages.end()\<close>, so its model keeps, with each
  iterator, the map it belongs to.

  C++ defines \<^verbatim>\<open>==\<close> on iterators of one container only. An iterator that points at an
  element is taken to differ from every \<^verbatim>\<open>end()\<close>. Whether the \<^verbatim>\<open>end()\<close> iterators of
  two different maps compare equal depends on how the library represents them (one shared
  null value, or a sentinel of each map); the library is not part of the sources, and the
  answer is the parameter \<open>ends_coincide\<close>. In the library of the Emscripten toolchain
  every \<^verbatim>\<open>end()\<close> is the iterator on the null node, and \<open>ends_coincide\<close> is \<open>True\<close>.
\<close>

datatype store_name = LocalStore | RemoteStore

datatype iterator = Iterator store_name "(32 word \<times> Message) option"

definition find_in :: "store_name \<Rightarrow> store \<Rightarrow> 32 word \<Rightarrow> iterator" where
  "find_in name messages msgId =
     Iterator name (map_option (\<lambda>msg. (msgId, msg)) (DAList.lookup messages msgId))"

definition end_of :: "store_name \<Rightarrow> iterator" where
  "end_of name = Iterator name None"

fun iterator_eq :: "bool \<Rightarrow> iterator \<Rightarrow> iterator \<Rightarrow> bool" where
  "iterator_eq ends_coincide (Iterator a x) (Iterator b y) =
     (if a = b then x = y else x = None \<and> y = None \<and> ends_coincide)"

fun arrow_second :: "iterator \<Rightarrow> error + Message" where
  "arrow_second (Iterator name None) = Inl end_dereferenced"
| "arrow_second (Iterator name (Some (msgId, msg))) = Inr msg"

record resolution =
  resolved :: bool
  useRemote :: "bool option"
  winner :: "string option"

definition resolveConflict ::
  "bool \<Rightarrow> SyncEngine \<Rightarrow> 32 word \<Rightarrow> (error + resolution) \<times> SyncEngine" where
  "resolveConflict ends_coincide st msgId =
     (let localIt = find_in LocalStore (localMessages st) msgId;
          remoteIt = find_in RemoteStore (remoteMessages st) msgId
      in if iterator_eq ends_coincide localIt (end_of LocalStore)
            \<or> iterator_eq ends_coincide remoteIt (end_of LocalStore)
         then (Inr \<lparr>resolved = False, useRemote = None, winner = None\<rparr>, st)
         else (then_do (arrow_second remoteIt) (\<lambda>remoteMsg.
               then_do (arrow_second localIt) (\<lambda>localMsg.
                 let remoteWins = sint (timestamp remoteMsg) > sint (timestamp localMsg)
                 in Inr \<lparr>resolved = True, useRemote = Some remoteWins,
                         winner = Some (if remoteWins then content remoteMsg
                                        else content localMsg)\<rparr>)), st))"

subsection \<open>\<^verbatim>\<open>getStats\<close>\<close>

text \<open>
  The counts are \<^verbatim>\<open>int\<close>s in the source. A map node holds a key and a \<^verbatim>\<open>Message\<close>, more
  than two bytes, so a map in a 32-bit address space has fewer than \<open>2 ^ 31\<close> entries and
  no count leaves the range of \<^verbatim>\<open>int\<close>: the counts are modelled as integers.
\<close>

fun conflicts_loop :: "SyncEngine \<Rightarrow> (32 word \<times> Message) list \<Rightarrow> int \<Rightarrow> int" where
  "conflicts_loop st [] n = n"
| "conflicts_loop st ((msgId, localMsg) # rest) n =
     (case DAList.lookup (remoteMessages st) msgId of
        None \<Rightarrow> conflicts_loop st rest n
      | Some remoteMsg \<Rightarrow>
          if hash localMsg \<noteq> hash remoteMsg
          then conflicts_loop st rest (n + 1)
          else conflicts_loop st rest n)"

record stats =
  localCount :: int
  remoteCount :: int
  conflicts :: int

definition getStats :: "SyncEngine \<Rightarrow> stats \<times> SyncEngine" where
  "getStats st =
     (\<lparr>localCount = int (length (DAList.impl_of (localMessages st))),
       remoteCount = int (length (DAList.impl_of (remoteMessages st))),
       conflicts = conflicts_loop st (DAList.impl_of (localMessages st)) 0\<rparr>, st)"

section \<open>Predicates of the statements\<close>

text \<open>
  What the loops of \<^verbatim>\<open>calculateDiff\<close> and \<^verbatim>\<open>getStats\<close> test of one entry of the map they
  visit.
\<close>

definition is_added :: "SyncEngine \<Rightarrow> 32 word \<times> Message \<Rightarrow> bool" where
  "is_added st = (\<lambda>(msgId, remoteMsg). DAList.lookup (localMessages st) msgId = None)"

definition is_modified :: "SyncEngine \<Rightarrow> 32 word \<times> Message \<Rightarrow> bool" where
  "is_modified st = (\<lambda>(msgId, remoteMsg).
     case DAList.lookup (localMessages st) msgId of
       None \<Rightarrow> False
     | Some localMsg \<Rightarrow> hash localMsg \<noteq> hash remoteMsg)"

definition is_deleted :: "SyncEngine \<Rightarrow> 32 word \<times> Message \<Rightarrow> bool" where
  "is_deleted st = (\<lambda>(msgId, localMsg). DAList.lookup (remoteMessages st) msgId = None)"

definition is_conflict :: "SyncEngine \<Rightarrow> 32 word \<times> Message \<Rightarrow> bool" where
  "is_conflict st = (\<lambda>(msgId, localMsg).
     case DAList.lookup (remoteMessages st) msgId of
       None \<Rightarrow> False
     | Some remoteMsg \<Rightarrow> hash localMsg \<noteq> hash remoteMsg)"

text \<open>The value of \<^verbatim>\<open>oldEnd\<close> when the second loop of \<^verbatim>\<open>generateDelta\<close> ends.\<close>

definition oldEnd_of :: "string \<Rightarrow> string \<Rightarrow> nat" where
  "oldEnd_of oldContent newContent =
     fst (suffix_loop oldContent newContent (prefix_loop oldContent newContent 0)
            (length oldContent) (length newContent))"

text \<open>The stored hash of every record of both stores is the hash of its content.\<close>

definition fingerprints_hold :: "SyncEngine \<Rightarrow> bool" where
  "fingerprints_hold st =
     (list_all (\<lambda>(msgId, msg). hash msg = hashMessage (content msg))
        (DAList.impl_of (localMessages st))
      \<and> list_all (\<lambda>(msgId, msg). hash msg = hashMessage (content msg))
          (DAList.impl_of (remoteMessages st)))"

section \<open>Decimal numbers: \<open>to_string\<close> and \<open>stoi\<close>\<close>

lemma isdigit_char_of: "d < 10 \<Longrightarrow> isdigit (char_of (d + 48 :: nat))"
  by (simp add: isdigit_def)

lemma digit_value_char_of: "d < 10 \<Longrightarrow> digit_value (char_of (d + 48 :: nat)) = d"
  by (simp add: digit_value_def)

lemma to_string_digits: "c \<in> set (to_string n) \<Longrightarrow> isdigit c"
proof (induction n arbitrary: c rule: to_string.induct)
  case (1 n)
  have last: "isdigit (char_of (n mod 10 + 48))"
    by (rule isdigit_char_of) simp
  from "1.prems" have "c = char_of (n mod 10 + 48) \<or> (10 \<le> n \<and> c \<in> set (to_string (n div 10)))"
    by (subst (asm) to_string.simps) (auto split: if_splits)
  with last "1.IH" show ?case by auto
qed

lemma to_string_not_empty: "to_string n \<noteq> []"
  by (subst to_string.simps) simp

lemma decimal_snoc: "decimal (ds @ [c]) = 10 * decimal ds + digit_value c"
  by (simp add: decimal_def)

lemma decimal_to_string: "decimal (to_string n) = n"
proof (induction n rule: to_string.induct)
  case (1 n)
  show ?case
  proof (cases "10 \<le> n")
    case True
    with "1.IH" have "decimal (to_string (n div 10)) = n div 10" by simp
    with True show ?thesis
      by (subst to_string.simps) (simp add: decimal_snoc digit_value_char_of)
  next
    case False
    then show ?thesis
      by (subst to_string.simps) (simp add: decimal_def digit_value_char_of)
  qed
qed

lemma isdigit_not_space: "isdigit c \<Longrightarrow> \<not> isspace c"
  by (auto simp: isdigit_def isspace_def)

lemma isdigit_not_sign: "isdigit c \<Longrightarrow> c \<noteq> CHR ''-'' \<and> c \<noteq> CHR ''+''"
  by (auto simp: isdigit_def)

lemma isdigit_not_colon: "isdigit c \<Longrightarrow> c \<noteq> CHR '':''"
  by (auto simp: isdigit_def)

lemma to_string_no_colon: "CHR '':'' \<notin> set (to_string n)"
  using to_string_digits isdigit_not_colon by blast

text \<open>\<open>stoi\<close> reads back what \<open>to_string\<close> wrote, as long as it fits an \<^verbatim>\<open>int\<close>.\<close>

lemma stoi_to_string:
  "stoi (to_string n) = (if INT_MAX < int n then Inl out_of_range else Inr (int n))"
proof -
  obtain c cs where shape: "to_string n = c # cs"
    using to_string_not_empty [of n] by (cases "to_string n") auto
  have all: "\<forall>x \<in> set (c # cs). isdigit x"
    using to_string_digits [of _ n] shape by auto
  then have c: "isdigit c" by simp
  have skip: "dropWhile isspace (c # cs) = c # cs"
    using isdigit_not_space [OF c] by simp
  have digits: "takeWhile isdigit (c # cs) = c # cs"
    using all by (simp only: takeWhile_eq_all_conv)
  have val: "decimal (c # cs) = n"
    using decimal_to_string [of n] shape by simp
  show ?thesis
    unfolding shape stoi_def Let_def skip
    using isdigit_not_sign [OF c] digits val
    by (simp add: INT_MIN_def)
qed

section \<open>Parsing a delta\<close>

lemma index_of_skip: "c \<notin> set xs \<Longrightarrow> index_of c (xs @ c # ys) = Some (length xs)"
  by (induction xs) auto

lemma index_of_absent: "c \<notin> set xs \<Longrightarrow> index_of c xs = None"
  by (induction xs) auto

lemma index_of_split:
  "index_of c xs = Some k \<Longrightarrow> xs = take k xs @ c # drop (Suc k) xs"
proof (induction xs arbitrary: k)
  case Nil
  then show ?case by simp
next
  case (Cons x xs)
  then show ?case by (cases k) (auto split: if_splits)
qed

text \<open>
  What \<open>apply_delta\<close> makes of a delta whose two numbers were written by \<open>to_string\<close>:
  the inserted text may hold any character, colons too.
\<close>

lemma apply_delta_fields:
  "apply_delta text (to_string p @ '':'' @ to_string d @ '':'' @ ins) =
     (if INT_MAX < int p \<or> INT_MAX < int d then Inl out_of_range
      else if INT_MAX < int (p + d) then Inl signed_overflow
      else Inr (take p text @ ins @ (if p + d < length text then drop (p + d) text else [])))"
proof -
  let ?A = "to_string p" and ?B = "to_string d"
  let ?delta = "?A @ CHR '':'' # ?B @ CHR '':'' # ins"
  have shape: "to_string p @ '':'' @ to_string d @ '':'' @ ins = ?delta"
    by simp
  have first: "find_from ?delta CHR '':'' 0 = Some (length ?A)"
    using index_of_skip [OF to_string_no_colon, of p "?B @ CHR '':'' # ins"]
    by (simp add: find_from_def)
  have second: "find_from ?delta CHR '':'' (length ?A + 1) = Some (length ?A + 1 + length ?B)"
    using index_of_skip [OF to_string_no_colon, of d ins]
    by (simp add: find_from_def)
  have s1: "substr ?delta 0 (length ?A) = Inr ?A"
    by (simp add: substr_def)
  have s2: "substr ?delta (length ?A + 1) (length ?A + 1 + length ?B - length ?A - 1) = Inr ?B"
    by (simp add: substr_def)
  have s3: "substr_to_end ?delta (length ?A + 1 + length ?B + 1) = Inr ins"
    by (simp add: substr_to_end_def)
  have size_t: "to_size_t (int k) = k" if "int k \<le> INT_MAX" for k
    using that by (simp add: to_size_t_def INT_MAX_def)
  have parsed: "apply_delta text ?delta =
      then_do (stoi ?A) (\<lambda>pos. then_do (stoi ?B) (\<lambda>delCount.
      then_do (substr text 0 (to_size_t pos)) (\<lambda>kept.
      then_do (int_add pos delCount) (\<lambda>endPos.
        if to_size_t endPos < length text
        then then_do (substr_to_end text (to_size_t endPos)) (\<lambda>rest. Inr (kept @ ins @ rest))
        else Inr (kept @ ins)))))"
    unfolding apply_delta_def Let_def first plus_one.simps second
    by (simp only: s1 s2 s3 then_do.simps option.case prod.case)
  show ?thesis
    unfolding shape parsed stoi_to_string
    by (auto simp: int_add_def INT_MIN_def size_t substr_def substr_to_end_def
             simp flip: of_nat_add)
qed

text \<open>The guard of \<open>apply_delta\<close>: a delta with fewer than two colons gives the content back.\<close>

lemma apply_delta_missing_delimiter:
  assumes few: "length (filter (\<lambda>c. c = CHR '':'') delta) < 2"
  shows "apply_delta text delta = Inr text"
proof (cases "index_of CHR '':'' delta")
  case None
  then show ?thesis by (simp add: apply_delta_def find_from_def)
next
  case (Some k)
  from index_of_split [OF Some]
  have shape: "delta = take k delta @ CHR '':'' # drop (Suc k) delta" .
  have "length (filter (\<lambda>c. c = CHR '':'') delta) =
        length (filter (\<lambda>c. c = CHR '':'') (take k delta @ CHR '':'' # drop (Suc k) delta))"
    using shape by simp
  with few have "filter (\<lambda>c. c = CHR '':'') (drop (Suc k) delta) = []"
    by simp
  then have "CHR '':'' \<notin> set (drop (Suc k) delta)"
    by (auto simp: filter_empty_conv)
  then have "index_of CHR '':'' (drop (Suc k) delta) = None"
    by (rule index_of_absent)
  with Some show ?thesis
    by (simp add: apply_delta_def find_from_def)
qed

section \<open>The two loops of \<open>delta_of\<close>\<close>

lemma prefix_loop_step:
  "i < length old \<Longrightarrow> i < length new \<Longrightarrow> old ! i = new ! i \<Longrightarrow>
   prefix_loop old new i = prefix_loop old new (i + 1)"
  by (subst prefix_loop.simps) simp

lemma prefix_loop_stop:
  "\<not> (i < length old \<and> i < length new \<and> old ! i = new ! i) \<Longrightarrow> prefix_loop old new i = i"
  by (subst prefix_loop.simps) auto

lemma suffix_loop_step:
  "i < oldEnd \<Longrightarrow> i < newEnd \<Longrightarrow> old ! (oldEnd - 1) = new ! (newEnd - 1) \<Longrightarrow>
   suffix_loop old new i oldEnd newEnd = suffix_loop old new i (oldEnd - 1) (newEnd - 1)"
  by (subst suffix_loop.simps) simp

lemma suffix_loop_stop:
  "\<not> (i < oldEnd \<and> i < newEnd \<and> old ! (oldEnd - 1) = new ! (newEnd - 1)) \<Longrightarrow>
   suffix_loop old new i oldEnd newEnd = (oldEnd, newEnd)"
  by (subst suffix_loop.simps) auto

text \<open>Loop invariant of the first loop: the first \<open>i\<close> characters agree.\<close>

lemma prefix_loop_spec:
  "i \<le> length old \<Longrightarrow> i \<le> length new \<Longrightarrow> take i old = take i new \<Longrightarrow>
   i \<le> prefix_loop old new i \<and> prefix_loop old new i \<le> length old
   \<and> prefix_loop old new i \<le> length new
   \<and> take (prefix_loop old new i) old = take (prefix_loop old new i) new"
proof (induction old new i rule: prefix_loop.induct)
  case (1 old new i)
  show ?case
  proof (cases "i < length old \<and> i < length new \<and> old ! i = new ! i")
    case True
    then have step: "take (i + 1) old = take (i + 1) new"
      using "1.prems"(3) by (simp add: take_Suc_conv_app_nth)
    from True have bounds: "i + 1 \<le> length old" "i + 1 \<le> length new" by simp_all
    have eq: "prefix_loop old new i = prefix_loop old new (i + 1)"
      using True by (simp add: prefix_loop_step)
    from "1.IH" [OF True bounds step] show ?thesis
      unfolding eq by simp
  next
    case False
    then have "prefix_loop old new i = i" by (rule prefix_loop_stop)
    with "1.prems" show ?thesis by simp
  qed
qed

lemma drop_pred: "0 < k \<Longrightarrow> k \<le> length xs \<Longrightarrow> drop (k - 1) xs = xs ! (k - 1) # drop k xs"
  by (cases k) (simp_all add: Cons_nth_drop_Suc)

text \<open>Loop invariant of the second loop: what lies behind the two ends agrees.\<close>

lemma suffix_loop_spec:
  "i \<le> oldEnd \<Longrightarrow> oldEnd \<le> length old \<Longrightarrow> i \<le> newEnd \<Longrightarrow> newEnd \<le> length new \<Longrightarrow>
   drop oldEnd old = drop newEnd new \<Longrightarrow> suffix_loop old new i oldEnd newEnd = (oe, ne) \<Longrightarrow>
   i \<le> oe \<and> oe \<le> length old \<and> i \<le> ne \<and> ne \<le> length new \<and> drop oe old = drop ne new"
proof (induction old new i oldEnd newEnd rule: suffix_loop.induct)
  case (1 old new i oldEnd newEnd)
  show ?case
  proof (cases "i < oldEnd \<and> i < newEnd \<and> old ! (oldEnd - 1) = new ! (newEnd - 1)")
    case True
    have "drop (oldEnd - 1) old = old ! (oldEnd - 1) # drop oldEnd old"
      using True "1.prems"(2) by (intro drop_pred) simp_all
    moreover have "drop (newEnd - 1) new = new ! (newEnd - 1) # drop newEnd new"
      using True "1.prems"(4) by (intro drop_pred) simp_all
    ultimately have step: "drop (oldEnd - 1) old = drop (newEnd - 1) new"
      using True "1.prems"(5) by simp
    have rec: "suffix_loop old new i (oldEnd - 1) (newEnd - 1) = (oe, ne)"
      using "1.prems"(6) True by (simp add: suffix_loop_step)
    have cond: "oldEnd > i \<and> newEnd > i \<and> old ! (oldEnd - 1) = new ! (newEnd - 1)"
      using True by simp
    have b: "i \<le> oldEnd - 1" "oldEnd - 1 \<le> length old"
            "i \<le> newEnd - 1" "newEnd - 1 \<le> length new"
      using True "1.prems"(2,4) by linarith+
    show ?thesis
      by (rule "1.IH" [OF cond b step rec])
  next
    case False
    then have "suffix_loop old new i oldEnd newEnd = (oldEnd, newEnd)"
      by (rule suffix_loop_stop)
    with "1.prems" show ?thesis by simp
  qed
qed

text \<open>\<open>delta_of\<close> always returns a delta, and these are its three fields.\<close>

lemma delta_of_fields:
  "\<exists>p oe ne.
     delta_of old new =
       Inr (to_string p @ '':'' @ to_string (oe - p) @ '':'' @ take (ne - p) (drop p new))
     \<and> p \<le> oe \<and> oe \<le> length old \<and> p \<le> ne \<and> ne \<le> length new
     \<and> take p old = take p new \<and> drop oe old = drop ne new
     \<and> oe = oldEnd_of old new"
proof -
  define p where "p = prefix_loop old new 0"
  obtain oe ne where loop: "suffix_loop old new p (length old) (length new) = (oe, ne)"
    by (cases "suffix_loop old new p (length old) (length new)")
  have pre: "p \<le> length old \<and> p \<le> length new \<and> take p old = take p new"
    using prefix_loop_spec [of 0 old new] by (simp add: p_def)
  have suf: "p \<le> oe \<and> oe \<le> length old \<and> p \<le> ne \<and> ne \<le> length new
             \<and> drop oe old = drop ne new"
    using suffix_loop_spec [OF _ _ _ _ _ loop] pre by simp
  have "delta_of old new =
          Inr (to_string p @ '':'' @ to_string (oe - p) @ '':'' @ take (ne - p) (drop p new))"
    using pre by (simp add: delta_of_def p_def [symmetric] loop substr_def)
  moreover have "oe = oldEnd_of old new"
    by (simp add: oldEnd_of_def p_def [symmetric] loop)
  ultimately show ?thesis using pre suf by blast
qed

lemma generateDelta_found:
  "DAList.lookup (localMessages st) msgId = Some localMsg \<Longrightarrow>
   DAList.lookup (remoteMessages st) msgId = Some remoteMsg \<Longrightarrow>
   fst (generateDelta st msgId) = delta_of (content localMsg) (content remoteMsg)"
  by (simp add: generateDelta_def)

section \<open>The delta codec: round trip\<close>

lemma oldEnd_of_le_length: "oldEnd_of old new \<le> length old"
  using delta_of_fields [of old new] by auto

text \<open>
  C1. For every pair of strings \<open>old\<close> and \<open>new\<close>, \<^verbatim>\<open>generateDelta\<close> produces a delta from
  (\<open>old\<close>, \<open>new\<close>), and \<^verbatim>\<open>applyDelta\<close> applied to \<open>old\<close> and that delta returns exactly
  \<open>new\<close>. Empty \<open>old\<close>, empty \<open>new\<close>, identical strings and a full replacement are
  instances.

  The hypothesis is that \<^verbatim>\<open>oldEnd\<close>, the index in \<open>old\<close> where the deleted region ends, is
  a value of \<^verbatim>\<open>int\<close>, the type into which \<^verbatim>\<open>applyDelta\<close> reads the prefix length and the
  delete count. \<^verbatim>\<open>oldEnd\<close> is at most the length of \<open>old\<close> (\<open>oldEnd_of_le_length\<close>), and
  every content that a store holds is shorter than \<open>2 ^ 31\<close> bytes: the engine runs in the
  32-bit address space fixed above, and \<^verbatim>\<open>addLocalMessage\<close> holds three copies of the
  content at once (its argument, \<^verbatim>\<open>msg.content\<close> and the copy in the map). So the
  hypothesis holds of every pair of contents the engine can hold.
\<close>

theorem delta_roundtrip:
  assumes "int (oldEnd_of old new) \<le> INT_MAX"
  shows "then_do (delta_of old new) (\<lambda>delta. fst (applyDelta st old delta)) = Inr new"
proof -
  obtain p oe ne where
    delta: "delta_of old new =
              Inr (to_string p @ '':'' @ to_string (oe - p) @ '':'' @ take (ne - p) (drop p new))"
    and b: "p \<le> oe" "oe \<le> length old" "p \<le> ne" "ne \<le> length new"
    and pre: "take p old = take p new" and suf: "drop oe old = drop ne new"
    and oe: "oe = oldEnd_of old new"
    using delta_of_fields [of old new] by blast
  have small: "\<not> (INT_MAX < int p \<or> INT_MAX < int (oe - p))" "\<not> INT_MAX < int (p + (oe - p))"
    using assms b oe by auto
  have tail: "(if oe < length old then drop oe old else []) = drop ne new"
    using suf b by auto
  have "new = take p new @ take (ne - p) (drop p new) @ drop ne new"
    using b by (metis append_take_drop_id drop_drop le_add_diff_inverse2)
  then have whole: "take p old @ take (ne - p) (drop p new) @ drop ne new = new"
    using pre by simp
  have sum: "p + (oe - p) = oe"
    using b by simp
  have "apply_delta old
          (to_string p @ '':'' @ to_string (oe - p) @ '':'' @ take (ne - p) (drop p new))
        = Inr (take p old @ take (ne - p) (drop p new)
               @ (if oe < length old then drop oe old else []))"
    unfolding apply_delta_fields using small by (simp only: sum if_False)
  also have "\<dots> = Inr new"
    by (simp only: tail whole)
  finally show ?thesis by (simp add: delta applyDelta_def)
qed

text \<open>The round trip of the worked pair: \<^verbatim>\<open>oldEnd\<close> is 2.\<close>

theorem delta_roundtrip_witness:
  "int (oldEnd_of ''hello'' ''hallo'') \<le> INT_MAX
   \<and> then_do (delta_of ''hello'' ''hallo'')
        (\<lambda>delta. fst (applyDelta new_SyncEngine ''hello'' delta)) = Inr ''hallo''"
proof -
  have "oldEnd_of ''hello'' ''hallo'' = 2" by code_simp
  then have fits: "int (oldEnd_of ''hello'' ''hallo'') \<le> INT_MAX"
    by (simp add: INT_MAX_def)
  from delta_roundtrip [OF fits, of new_SyncEngine] fits show ?thesis by simp
qed

section \<open>Malformed deltas\<close>

text \<open>
  C2. The claim: for every delta that cannot be parsed into the two numeric fields,
  \<^verbatim>\<open>applyDelta\<close> returns the content unchanged and never raises. The guard of
  \<^verbatim>\<open>applyDelta\<close>, commented \<^verbatim>\<open>// Invalid delta\<close>, covers the deltas with fewer than two colons
  (\<open>apply_delta_missing_delimiter\<close>). A delta with two colons and a field without a digit
  passes the guard, and \<^verbatim>\<open>std::stoi\<close> throws \<^verbatim>\<open>std::invalid_argument\<close>: on the content
  \<^verbatim>\<open>abc\<close> and the delta \<^verbatim>\<open>x:y:z\<close> the call raises instead of returning \<^verbatim>\<open>abc\<close>.
\<close>

theorem applyDelta_malformed_raises:
  "fst (applyDelta st ''abc'' ''x:y:z'') = Inl invalid_argument"
proof -
  have "apply_delta ''abc'' ''x:y:z'' = Inl invalid_argument" by code_simp
  then show ?thesis by (simp add: applyDelta_def)
qed

section \<open>Conflict resolution\<close>

lemma resolveConflict_local_missing:
  "DAList.lookup (localMessages st) msgId = None \<Longrightarrow>
   fst (resolveConflict ends_coincide st msgId)
     = Inr \<lparr>resolved = False, useRemote = None, winner = None\<rparr>"
  by (simp add: resolveConflict_def find_in_def end_of_def)

lemma resolveConflict_remote_missing:
  "DAList.lookup (localMessages st) msgId = Some localMsg \<Longrightarrow>
   DAList.lookup (remoteMessages st) msgId = None \<Longrightarrow>
   fst (resolveConflict ends_coincide st msgId) =
     (if ends_coincide then Inr \<lparr>resolved = False, useRemote = None, winner = None\<rparr>
      else Inl end_dereferenced)"
  by (simp add: resolveConflict_def find_in_def end_of_def)

text \<open>A call that returns \<^verbatim>\<open>resolved = true\<close> found the id in both stores.\<close>

lemma resolveConflict_resolved_only_both:
  "fst (resolveConflict ends_coincide st msgId) = Inr r \<Longrightarrow> resolved r \<Longrightarrow>
   DAList.lookup (localMessages st) msgId \<noteq> None
   \<and> DAList.lookup (remoteMessages st) msgId \<noteq> None"
  by (cases "DAList.lookup (localMessages st) msgId";
      cases "DAList.lookup (remoteMessages st) msgId")
     (auto simp: resolveConflict_def find_in_def end_of_def split: if_splits)

text \<open>
  C3. For every id absent from the local store or absent from the remote store,
  \<^verbatim>\<open>resolveConflict\<close> returns a result whose \<^verbatim>\<open>resolved\<close> flag is false, with no winner
  and without dereferencing an iterator. Hence \<^verbatim>\<open>resolved\<close> is true only when the id is
  in both stores (\<open>resolveConflict_resolved_only_both\<close>).

  The guard names \<^verbatim>\<open>localMessages.end()\<close> for the remote iterator too. The library that
  Emscripten ships represents \<^verbatim>\<open>end()\<close> of every \<^verbatim>\<open>unordered_map\<close> by an iterator on the
  null node and compares iterators by their nodes, so that \<^verbatim>\<open>remoteMessages.end()\<close> equals
  \<^verbatim>\<open>localMessages.end()\<close>: \<open>ends_coincide\<close> is \<open>True\<close>.
\<close>

theorem resolveConflict_missing:
  "DAList.lookup (localMessages st) msgId = None \<or> DAList.lookup (remoteMessages st) msgId = None
   \<Longrightarrow> fst (resolveConflict True st msgId)
         = Inr \<lparr>resolved = False, useRemote = None, winner = None\<rparr>"
  by (cases "DAList.lookup (localMessages st) msgId")
     (auto simp: resolveConflict_def find_in_def end_of_def)

text \<open>Id 1 is in the local store only: the guard decides on the comparison of the two ends.\<close>

theorem resolveConflict_missing_witness:
  "(DAList.lookup (localMessages (run [AddLocalMessage 1 ''hello'' 100])) 1 = None
     \<or> DAList.lookup (remoteMessages (run [AddLocalMessage 1 ''hello'' 100])) 1 = None)
   \<and> fst (resolveConflict True (run [AddLocalMessage 1 ''hello'' 100]) 1)
       = Inr \<lparr>resolved = False, useRemote = None, winner = None\<rparr>"
  using resolveConflict_missing [of "run [AddLocalMessage 1 ''hello'' 100]" 1]
  by (simp add: run_def new_SyncEngine_def addLocalMessage_def)

text \<open>
  C6. For every id present in both stores, \<^verbatim>\<open>resolveConflict\<close> returns
  \<^verbatim>\<open>resolved = true\<close>; \<^verbatim>\<open>useRemote\<close> is true exactly when the remote timestamp is strictly
  greater than the local one, so that equal timestamps select the local side; and
  \<^verbatim>\<open>winner\<close> is the content of the selected side. This holds whatever the comparison of
  the two \<^verbatim>\<open>end()\<close> iterators gives.
\<close>

theorem resolveConflict_both_present:
  "DAList.lookup (localMessages st) msgId = Some localMsg \<Longrightarrow>
   DAList.lookup (remoteMessages st) msgId = Some remoteMsg \<Longrightarrow>
   fst (resolveConflict ends_coincide st msgId) =
     Inr \<lparr>resolved = True,
          useRemote = Some (sint (timestamp localMsg) < sint (timestamp remoteMsg)),
          winner = Some (if sint (timestamp localMsg) < sint (timestamp remoteMsg)
                         then content remoteMsg else content localMsg)\<rparr>"
  by (simp add: resolveConflict_def find_in_def end_of_def)

text \<open>The worked conflict: local timestamp 100, remote timestamp 200, the remote side wins.\<close>

theorem resolveConflict_both_present_witness:
  "DAList.lookup
     (localMessages (run [AddLocalMessage 1 ''hello'' 100, AddRemoteMessage 1 ''hallo'' 200])) 1
     = Some \<lparr>msg_id = 1, content = ''hello'', timestamp = 100, hash = hashMessage ''hello''\<rparr>
   \<and> DAList.lookup
     (remoteMessages (run [AddLocalMessage 1 ''hello'' 100, AddRemoteMessage 1 ''hallo'' 200])) 1
     = Some \<lparr>msg_id = 1, content = ''hallo'', timestamp = 200, hash = hashMessage ''hallo''\<rparr>
   \<and> fst (resolveConflict False
            (run [AddLocalMessage 1 ''hello'' 100, AddRemoteMessage 1 ''hallo'' 200]) 1)
     = Inr \<lparr>resolved = True, useRemote = Some True, winner = Some ''hallo''\<rparr>"
  using resolveConflict_both_present
    [of "run [AddLocalMessage 1 ''hello'' 100, AddRemoteMessage 1 ''hallo'' 200]" 1
        "\<lparr>msg_id = 1, content = ''hello'', timestamp = 100, hash = hashMessage ''hello''\<rparr>"
        "\<lparr>msg_id = 1, content = ''hallo'', timestamp = 200, hash = hashMessage ''hallo''\<rparr>"
        False]
  by (simp add: run_def new_SyncEngine_def addLocalMessage_def addRemoteMessage_def)

section \<open>The diff and the statistics\<close>

lemma diff_remote_loop_eq:
  "diff_remote_loop st entries (added_ids, modified_ids) =
     (added_ids @ map fst (filter (is_added st) entries),
      modified_ids @ map fst (filter (is_modified st) entries))"
  by (induction entries arbitrary: added_ids modified_ids)
     (auto simp: is_added_def is_modified_def split: option.splits)

lemma diff_local_loop_eq:
  "diff_local_loop st entries deleted_ids =
     deleted_ids @ map fst (filter (is_deleted st) entries)"
  by (induction entries arbitrary: deleted_ids) (auto simp: is_deleted_def)

lemma conflicts_loop_eq:
  "conflicts_loop st entries n = n + int (length (filter (is_conflict st) entries))"
  by (induction entries arbitrary: n) (auto simp: is_conflict_def split: option.splits)

lemma calculateDiff_eq:
  "fst (calculateDiff st) =
     \<lparr>added = map fst (filter (is_added st) (DAList.impl_of (remoteMessages st))),
      modified = map fst (filter (is_modified st) (DAList.impl_of (remoteMessages st))),
      deleted = map fst (filter (is_deleted st) (DAList.impl_of (localMessages st)))\<rparr>"
  by (simp add: calculateDiff_def diff_remote_loop_eq diff_local_loop_eq)

lemma entry_iff_lookup:
  "(k, m) \<in> set (DAList.impl_of messages) \<longleftrightarrow> DAList.lookup messages k = Some m"
  by (simp add: DAList.lookup.rep_eq)

lemma keys_of_filter:
  "set (map fst (filter P (DAList.impl_of messages))) =
     {k. \<exists>m. DAList.lookup messages k = Some m \<and> P (k, m)}"
  by (auto simp: entry_iff_lookup image_iff)

lemma distinct_keys_of_filter: "distinct (map fst (filter P (DAList.impl_of messages)))"
  by (rule distinct_map_filter) simp

text \<open>
  C4. For every pair of stores, the three lists of \<^verbatim>\<open>calculateDiff\<close> are, as sets:
  \<^verbatim>\<open>added\<close> the ids present in remote and absent from local, \<^verbatim>\<open>modified\<close> the ids present
  in both whose hashes differ, \<^verbatim>\<open>deleted\<close> the ids present in local and absent from remote.
  The three sets are pairwise disjoint, and an id present in both stores with equal hashes
  is in none of them.
\<close>

theorem calculateDiff_partition:
  fixes st :: SyncEngine
  defines "d \<equiv> fst (calculateDiff st)"
  defines "here \<equiv> DAList.lookup (localMessages st)"
  defines "there \<equiv> DAList.lookup (remoteMessages st)"
  shows "set (added d) = {k. there k \<noteq> None \<and> here k = None}
       \<and> set (modified d) = {k. \<exists>l r. here k = Some l \<and> there k = Some r \<and> hash l \<noteq> hash r}
       \<and> set (deleted d) = {k. here k \<noteq> None \<and> there k = None}
       \<and> set (added d) \<inter> set (modified d) = {}
       \<and> set (added d) \<inter> set (deleted d) = {}
       \<and> set (modified d) \<inter> set (deleted d) = {}
       \<and> (\<forall>k l r. here k = Some l \<and> there k = Some r \<and> hash l = hash r
             \<longrightarrow> k \<notin> set (added d) \<union> set (modified d) \<union> set (deleted d))"
proof -
  have a: "set (added d) = {k. there k \<noteq> None \<and> here k = None}"
    unfolding d_def here_def there_def calculateDiff_eq diff.simps keys_of_filter
    by (auto simp: is_added_def)
  have m: "set (modified d) = {k. \<exists>l r. here k = Some l \<and> there k = Some r \<and> hash l \<noteq> hash r}"
    unfolding d_def here_def there_def calculateDiff_eq diff.simps keys_of_filter
    by (auto simp: is_modified_def split: option.splits)
  have e: "set (deleted d) = {k. here k \<noteq> None \<and> there k = None}"
    unfolding d_def here_def there_def calculateDiff_eq diff.simps keys_of_filter
    by (auto simp: is_deleted_def)
  show ?thesis
    unfolding a m e by auto
qed

text \<open>Id 1 with the same content on both sides, hence equal hashes, is in none of the sets.\<close>

theorem calculateDiff_partition_witness:
  "DAList.lookup
     (localMessages (run [AddLocalMessage 1 ''same'' 100, AddRemoteMessage 1 ''same'' 200])) 1
     = Some \<lparr>msg_id = 1, content = ''same'', timestamp = 100, hash = hashMessage ''same''\<rparr>
   \<and> DAList.lookup
     (remoteMessages (run [AddLocalMessage 1 ''same'' 100, AddRemoteMessage 1 ''same'' 200])) 1
     = Some \<lparr>msg_id = 1, content = ''same'', timestamp = 200, hash = hashMessage ''same''\<rparr>
   \<and> 1 \<notin> set (added (fst (calculateDiff
              (run [AddLocalMessage 1 ''same'' 100, AddRemoteMessage 1 ''same'' 200]))))
          \<union> set (modified (fst (calculateDiff
              (run [AddLocalMessage 1 ''same'' 100, AddRemoteMessage 1 ''same'' 200]))))
          \<union> set (deleted (fst (calculateDiff
              (run [AddLocalMessage 1 ''same'' 100, AddRemoteMessage 1 ''same'' 200]))))"
proof -
  let ?st = "run [AddLocalMessage 1 ''same'' 100, AddRemoteMessage 1 ''same'' 200]"
  let ?l = "\<lparr>msg_id = 1, content = ''same'', timestamp = 100, hash = hashMessage ''same''\<rparr>"
  let ?r = "\<lparr>msg_id = 1, content = ''same'', timestamp = 200, hash = hashMessage ''same''\<rparr>"
  have here: "DAList.lookup (localMessages ?st) 1 = Some ?l"
    by (simp add: run_def new_SyncEngine_def addLocalMessage_def addRemoteMessage_def)
  have there: "DAList.lookup (remoteMessages ?st) 1 = Some ?r"
    by (simp add: run_def new_SyncEngine_def addLocalMessage_def addRemoteMessage_def)
  have same: "hash ?l = hash ?r"
    by simp
  from calculateDiff_partition [of ?st] here there same
  have "1 \<notin> set (added (fst (calculateDiff ?st))) \<union> set (modified (fst (calculateDiff ?st)))
            \<union> set (deleted (fst (calculateDiff ?st)))"
    by blast
  with here there show ?thesis by blast
qed

text \<open>
  C5. For every state of the stores, the \<^verbatim>\<open>conflicts\<close> count of \<^verbatim>\<open>getStats\<close>, which walks
  the local map, is the number of ids in the \<^verbatim>\<open>modified\<close> list of \<^verbatim>\<open>calculateDiff\<close>, which
  walks the remote map.
\<close>

theorem getStats_conflicts_eq_modified:
  "conflicts (fst (getStats st)) = int (length (modified (fst (calculateDiff st))))"
proof -
  let ?L = "DAList.impl_of (localMessages st)" and ?R = "DAList.impl_of (remoteMessages st)"
  let ?S = "{k. \<exists>l r. DAList.lookup (localMessages st) k = Some l
                    \<and> DAList.lookup (remoteMessages st) k = Some r \<and> hash l \<noteq> hash r}"
  have "length (filter (is_conflict st) ?L) = length (map fst (filter (is_conflict st) ?L))"
    by simp
  also have "\<dots> = card (set (map fst (filter (is_conflict st) ?L)))"
    by (rule distinct_card [symmetric]) (rule distinct_keys_of_filter)
  also have "set (map fst (filter (is_conflict st) ?L)) = ?S"
    unfolding keys_of_filter by (auto simp: is_conflict_def split: option.splits)
  finally have left: "length (filter (is_conflict st) ?L) = card ?S" .
  have "length (map fst (filter (is_modified st) ?R))
          = card (set (map fst (filter (is_modified st) ?R)))"
    by (rule distinct_card [symmetric]) (rule distinct_keys_of_filter)
  also have "set (map fst (filter (is_modified st) ?R)) = ?S"
    unfolding keys_of_filter by (auto simp: is_modified_def split: option.splits)
  finally have right: "length (map fst (filter (is_modified st) ?R)) = card ?S" .
  show ?thesis
    by (simp only: getStats_def calculateDiff_eq fst_conv stats.simps diff.simps
          conflicts_loop_eq left right)
qed

section \<open>The stored hashes\<close>

lemma list_all_update:
  "P (k, v) \<Longrightarrow> list_all P xs \<Longrightarrow> list_all P (AList.update k v xs)"
  by (induction xs) auto

lemma list_all_store_update:
  "P (k, v) \<Longrightarrow> list_all P (DAList.impl_of messages) \<Longrightarrow>
   list_all P (DAList.impl_of (DAList.update k v messages))"
  by (simp add: DAList.update.rep_eq list_all_update)

lemma fingerprints_new: "fingerprints_hold new_SyncEngine"
  by (simp add: fingerprints_hold_def new_SyncEngine_def DAList.empty.rep_eq)

lemma fingerprints_perform: "fingerprints_hold st \<Longrightarrow> fingerprints_hold (perform op st)"
  by (cases op)
     (simp_all add: fingerprints_hold_def addLocalMessage_def addRemoteMessage_def clear_def
        list_all_store_update DAList.empty.rep_eq)

lemma fingerprints_fold: "fingerprints_hold st \<Longrightarrow> fingerprints_hold (fold perform ops st)"
  by (induction ops arbitrary: st) (simp_all add: fingerprints_perform)

lemma fingerprints_lookup:
  "fingerprints_hold st \<Longrightarrow>
   DAList.lookup (localMessages st) k = Some m \<or> DAList.lookup (remoteMessages st) k = Some m \<Longrightarrow>
   hash m = hashMessage (content m)"
  by (auto simp: fingerprints_hold_def list_all_iff entry_iff_lookup [symmetric])

text \<open>
  C7. After every sequence of \<^verbatim>\<open>addLocalMessage\<close>, \<^verbatim>\<open>addRemoteMessage\<close> and \<^verbatim>\<open>clear\<close>
  calls on a fresh engine, the stored hash of every record of either store is
  \<^verbatim>\<open>hashMessage\<close> of its content.
\<close>

theorem fingerprint_invariant: "fingerprints_hold (run ops)"
  unfolding run_def by (rule fingerprints_fold [OF fingerprints_new])

text \<open>After a \<^verbatim>\<open>clear\<close> and a replacement, the record of id 2 carries the hash of its new content.\<close>

theorem fingerprint_invariant_witness:
  "DAList.lookup (localMessages (run [AddLocalMessage 1 ''hello'' 100, Clear,
       AddLocalMessage 2 ''old'' 5, AddLocalMessage 2 ''new'' 6])) 2
     = Some \<lparr>msg_id = 2, content = ''new'', timestamp = 6, hash = hashMessage ''new''\<rparr>
   \<and> fingerprints_hold (run [AddLocalMessage 1 ''hello'' 100, Clear,
       AddLocalMessage 2 ''old'' 5, AddLocalMessage 2 ''new'' 6])"
  using fingerprint_invariant
    [of "[AddLocalMessage 1 ''hello'' 100, Clear,
          AddLocalMessage 2 ''old'' 5, AddLocalMessage 2 ''new'' 6]"]
  by (simp add: run_def new_SyncEngine_def addLocalMessage_def clear_def)

section \<open>Missing ids, the worked delta, and the queries\<close>

text \<open>
  C8. For every id missing from the local store or missing from the remote store,
  \<^verbatim>\<open>generateDelta\<close> returns the empty string.
\<close>

theorem generateDelta_missing:
  "DAList.lookup (localMessages st) msgId = None \<or> DAList.lookup (remoteMessages st) msgId = None
   \<Longrightarrow> fst (generateDelta st msgId) = Inr ''''"
  by (auto simp: generateDelta_def split: option.splits)

text \<open>Id 2 is in neither store of an engine that holds id 1 locally.\<close>

theorem generateDelta_missing_witness:
  "(DAList.lookup (localMessages (run [AddLocalMessage 1 ''hello'' 100])) 2 = None
     \<or> DAList.lookup (remoteMessages (run [AddLocalMessage 1 ''hello'' 100])) 2 = None)
   \<and> fst (generateDelta (run [AddLocalMessage 1 ''hello'' 100]) 2) = Inr ''''"
  using generateDelta_missing [of "run [AddLocalMessage 1 ''hello'' 100]" 2]
  by (simp add: run_def new_SyncEngine_def addLocalMessage_def)

text \<open>
  C9. With local id 1 of content \<^verbatim>\<open>hello\<close> and remote id 1 of content \<^verbatim>\<open>hallo\<close>,
  \<^verbatim>\<open>generateDelta(1)\<close> returns exactly \<^verbatim>\<open>1:1:a\<close>: prefix length 1, delete count 1,
  inserted text \<^verbatim>\<open>a\<close>, in that order, separated by colons. And
  \<^verbatim>\<open>applyDelta("hello", "1:1:a")\<close> returns \<^verbatim>\<open>hallo\<close>. The timestamps and the engine on
  which \<^verbatim>\<open>applyDelta\<close> is called are arbitrary.
\<close>

theorem worked_delta:
  "fst (generateDelta (run [AddLocalMessage 1 ''hello'' t, AddRemoteMessage 1 ''hallo'' u]) 1)
     = Inr ''1:1:a''
   \<and> fst (applyDelta st ''hello'' ''1:1:a'') = Inr ''hallo''"
proof -
  have enc: "delta_of ''hello'' ''hallo'' = Inr ''1:1:a''" by code_simp
  have dec: "apply_delta ''hello'' ''1:1:a'' = Inr ''hallo''" by code_simp
  show ?thesis
    by (simp add: run_def new_SyncEngine_def addLocalMessage_def addRemoteMessage_def
          generateDelta_def applyDelta_def enc dec)
qed

text \<open>
  C10. \<^verbatim>\<open>calculateDiff\<close>, \<^verbatim>\<open>generateDelta\<close>, \<^verbatim>\<open>applyDelta\<close> and \<^verbatim>\<open>getStats\<close> leave both
  stores as they found them: for every state, the engine after the call is the engine
  before it, whatever the call returns or raises.
\<close>

theorem queries_leave_stores:
  "snd (calculateDiff st) = st \<and> snd (generateDelta st msgId) = st
   \<and> snd (applyDelta st text delta) = st \<and> snd (getStats st) = st"
  by (simp add: calculateDiff_def generateDelta_def applyDelta_def getStats_def
        split: prod.splits option.splits)

end
